theory Spec2Isabelle
  imports Main
begin

section \<open>Data model\<close>

text \<open>
  A Go byte slice is a list of bytes; Isabelle's \<open>char\<close> is a byte, so \<open>[]byte\<close> and
  Go's \<open>string\<close> are both \<open>string\<close> here, and the conversions \<open>string(tx.ID)\<close> and
  \<open>[]byte("latest")\<close> are the identity. A nil slice is the empty list (the source only
  takes \<open>len\<close> of slices and ranges over them).
\<close>

type_synonym bytes = string

text \<open>
  The source file uses \<open>Block\<close>, \<open>Transaction\<close>, \<open>TXInput\<close> and \<open>TXoutput\<close> without
  declaring them. The records below carry the fields the source reads. An input may
  carry more than \<open>TXid\<close> and \<open>Voutindex\<close> (whatever its unlock predicate inspects), so
  inputs are record schemes; an output is an opaque value of type \<open>'o\<close>.
\<close>

record TXInput =
  TXid :: bytes
  Voutindex :: int

record ('i, 'o) Transaction =
  ID :: bytes
  In :: "'i TXInput_scheme list"
  Out :: "'o list"

record ('i, 'o) Block =
  Hash :: bytes
  PrevBlockHash :: bytes
  Transactions :: "('i, 'o) Transaction list"

subsection \<open>The key-value store\<close>

text \<open>
  A bucket maps keys to values; the database maps bucket names to buckets.
  \<open>Get\<close> on a missing key gives nil. \<open>Put\<close> refuses an empty key, a key longer than
  32768 bytes and a value longer than \<open>2^31 - 2\<close> bytes (the store's documented
  limits), and can also fail for a reason outside the program (first argument).
\<close>

type_synonym bucket = "bytes \<rightharpoonup> bytes"
type_synonym boltDB = "bytes \<rightharpoonup> bucket"

definition DBFILE :: string where
  "DBFILE = ''blockchain.db''"

definition BLOCKBUCKET :: bytes where
  "BLOCKBUCKET = ''blocks''"

definition bucketGet :: "bucket \<Rightarrow> bytes \<Rightarrow> bytes" where
  "bucketGet b key = (case b key of None \<Rightarrow> [] | Some v \<Rightarrow> v)"

definition bucketPut :: "bool \<Rightarrow> bucket \<Rightarrow> bytes \<Rightarrow> bytes \<Rightarrow> bucket option" where
  "bucketPut ioErr b key v =
     (if ioErr \<or> key = [] \<or> 32768 < length key \<or> 2147483646 < length v then None
      else Some (b(key \<mapsto> v)))"

text \<open>
  What the store does outside the program's control during one call: whether the file
  opens, whether a read or a write transaction can begin, whether the bucket can be
  created, whether each \<open>Put\<close> goes through, and whether the write transaction commits.
\<close>

record faults =
  openErr :: bool
  viewErr :: bool
  updateErr :: bool
  createBucketErr :: bool
  putBlockErr :: bool
  putLatestErr :: bool
  commitErr :: bool

definition noFaults :: faults where
  "noFaults = \<lparr>openErr = False, viewErr = False, updateErr = False, createBucketErr = False,
     putBlockErr = False, putLatestErr = False, commitErr = False\<rparr>"

text \<open>A call either panics or returns a value.\<close>

datatype 'a outcome = Panicked | Returned 'a

subsection \<open>Blockchain\<close>

record Blockchain =
  topHash :: bytes
  db :: boltDB

record BlockchainIterator =
  currentHash :: bytes
  iterDb :: boltDB

definition GetTopHash :: "Blockchain \<Rightarrow> bytes" where
  "GetTopHash bc = topHash bc"

text \<open>
  \<open>CreateBlockchain\<close>: the argument \<open>file\<close> is the content of the database file
  (no bucket at all when the file is new). Every error is a panic; the closure's
  writes reach the store only when the transaction commits.
\<close>

definition CreateBlockchain ::
  "('i, 'o) Block \<Rightarrow> (('i, 'o) Block \<Rightarrow> bytes) \<Rightarrow> faults \<Rightarrow> boltDB \<Rightarrow> Blockchain outcome" where
  "CreateBlockchain GenesisBlock Serialize f file =
     (if openErr f then Panicked
      else if updateErr f then Panicked
      else case file BLOCKBUCKET of
        None \<Rightarrow>
          (if createBucketErr f then Panicked
           else case bucketPut (putBlockErr f) Map.empty (Hash GenesisBlock) (Serialize GenesisBlock) of
             None \<Rightarrow> Panicked
           | Some b1 \<Rightarrow>
              (case bucketPut (putLatestErr f) b1 ''latest'' (Hash GenesisBlock) of
                 None \<Rightarrow> Panicked
               | Some b2 \<Rightarrow>
                  if commitErr f then Panicked
                  else Returned \<lparr>topHash = Hash GenesisBlock, db = file(BLOCKBUCKET \<mapsto> b2)\<rparr>))
      | Some bucket \<Rightarrow>
          if commitErr f then Panicked
          else Returned \<lparr>topHash = bucketGet bucket ''latest'', db = file\<rparr>)"

text \<open>
  \<open>AddBlock\<close>, first half (the read transaction): the hash under \<open>latest\<close>.
  A read transaction that cannot begin gives a non-nil \<open>err\<close> and the panic that follows;
  a missing bucket is a nil dereference.
\<close>

definition AddBlock_tophash :: "faults \<Rightarrow> Blockchain \<Rightarrow> bytes outcome" where
  "AddBlock_tophash f bc =
     (if viewErr f then Panicked
      else case db bc BLOCKBUCKET of
        None \<Rightarrow> Panicked
      | Some bucket \<Rightarrow> Returned (bucketGet bucket ''latest''))"

text \<open>
  \<open>AddBlock\<close>, second half (the write transaction). The result of \<open>Update\<close> is dropped:
  the \<open>err\<close> tested afterwards is still the read transaction's, which is nil here, so
  the function returns \<open>true\<close> whenever the closure did not panic. The closure assigns
  \<open>bc.topHash\<close> before the transaction commits; a panic inside the closure happens
  before that assignment and rolls the store back.
\<close>

definition AddBlock_update ::
  "(('i, 'o) Block \<Rightarrow> bytes) \<Rightarrow> faults \<Rightarrow> ('i, 'o) Block \<Rightarrow> Blockchain \<Rightarrow> bool outcome \<times> Blockchain" where
  "AddBlock_update Serialize f newBlock bc =
     (if updateErr f then (Returned True, bc)
      else case db bc BLOCKBUCKET of
        None \<Rightarrow> (Panicked, bc)
      | Some bucket \<Rightarrow>
         (case bucketPut (putBlockErr f) bucket (Hash newBlock) (Serialize newBlock) of
            None \<Rightarrow> (Panicked, bc)
          | Some b1 \<Rightarrow>
             (case bucketPut (putLatestErr f) b1 ''latest'' (Hash newBlock) of
                None \<Rightarrow> (Panicked, bc)
              | Some b2 \<Rightarrow>
                 (let bc' = bc\<lparr>topHash := Hash newBlock\<rparr>
                  in if commitErr f then (Returned True, bc')
                     else (Returned True, bc'\<lparr>db := (db bc)(BLOCKBUCKET \<mapsto> b2)\<rparr>)))))"

definition AddBlock ::
  "(bytes \<Rightarrow> ('i, 'o) Transaction list \<Rightarrow> ('i, 'o) Block) \<Rightarrow> (('i, 'o) Block \<Rightarrow> bytes) \<Rightarrow> faults
     \<Rightarrow> ('i, 'o) Transaction list \<Rightarrow> Blockchain \<Rightarrow> bool outcome \<times> Blockchain" where
  "AddBlock NewBlock Serialize f txs bc =
     (case AddBlock_tophash f bc of
        Panicked \<Rightarrow> (Panicked, bc)
      | Returned tophash \<Rightarrow> AddBlock_update Serialize f (NewBlock tophash txs) bc)"

subsection \<open>Iterator\<close>

definition Iterator :: "Blockchain \<Rightarrow> BlockchainIterator" where
  "Iterator bc = \<lparr>currentHash = topHash bc, iterDb = db bc\<rparr>"

text \<open>
  \<open>Next\<close>: \<open>Deserialize\<close> is given the bytes found under the cursor (nil when the key is
  missing); \<open>None\<close> stands for its failure, which ends in a panic either inside it or at
  the dereference of the nil block.
\<close>

definition Next ::
  "(bytes \<Rightarrow> ('i, 'o) Block option) \<Rightarrow> faults \<Rightarrow> BlockchainIterator
     \<Rightarrow> (('i, 'o) Block \<times> BlockchainIterator) outcome" where
  "Next Deserialize f iter =
     (if viewErr f then Panicked
      else case iterDb iter BLOCKBUCKET of
        None \<Rightarrow> Panicked
      | Some bucket \<Rightarrow>
         (case Deserialize (bucketGet bucket (currentHash iter)) of
            None \<Rightarrow> Panicked
          | Some block \<Rightarrow> Returned (block, iter\<lparr>currentHash := PrevBlockHash block\<rparr>)))"

text \<open>
  \<open>IterateBlockchain\<close> prints each block it walks over; the model returns the blocks in
  the order they are printed. The loop has no bound of its own, so not returning is
  the value \<open>None\<close>.
\<close>

partial_function (option) IterateBlockchain_loop ::
  "(bytes \<Rightarrow> ('i, 'o) Block option) \<Rightarrow> faults \<Rightarrow> BlockchainIterator \<Rightarrow> ('i, 'o) Block list
     \<Rightarrow> ('i, 'o) Block list outcome option" where
  "IterateBlockchain_loop Deserialize f iterator printed =
     (case Next Deserialize f iterator of
        Panicked \<Rightarrow> Some Panicked
      | Returned r \<Rightarrow>
         (if PrevBlockHash (fst r) = [] then Some (Returned (printed @ [fst r]))
          else IterateBlockchain_loop Deserialize f (snd r) (printed @ [fst r])))"

definition IterateBlockchain ::
  "(bytes \<Rightarrow> ('i, 'o) Block option) \<Rightarrow> faults \<Rightarrow> Blockchain \<Rightarrow> ('i, 'o) Block list outcome option" where
  "IterateBlockchain Deserialize f bc = IterateBlockchain_loop Deserialize f (Iterator bc) []"

section \<open>Unspent outputs\<close>

text \<open>
  The methods \<open>CanBeUnlockedWith\<close> (of an output), \<open>CanUnlockOutputWith\<close> (of an input)
  and \<open>IsCoinbase\<close> (of a transaction) are not in the source file; the functions below
  take them as arguments of the same names.
\<close>

type_synonym spendMap = "bytes \<rightharpoonup> int list"

text \<open>
  The test at the head of the \<open>Outputs\<close> loop: \<open>spendTxos[txID]\<close> is not nil and one of
  its elements equals \<open>outIdx\<close>. A key that was never written reads as nil.
\<close>

definition isSpent :: "spendMap \<Rightarrow> bytes \<Rightarrow> int \<Rightarrow> bool" where
  "isSpent spendTxos txID outIdx =
     (case spendTxos txID of None \<Rightarrow> False | Some spent \<Rightarrow> outIdx \<in> set spent)"

text \<open>The \<open>Outputs\<close> loop over \<open>tx.Out\<close>, from position \<open>outIdx\<close> on.\<close>

fun scanOutputs ::
  "('o \<Rightarrow> string \<Rightarrow> bool) \<Rightarrow> string \<Rightarrow> spendMap \<Rightarrow> ('i, 'o) Transaction \<Rightarrow> nat \<Rightarrow> 'o list
     \<Rightarrow> ('i, 'o) Transaction list \<Rightarrow> ('i, 'o) Transaction list" where
  "scanOutputs CanBeUnlockedWith address spendTxos tx outIdx [] unspentTXs = unspentTXs"
| "scanOutputs CanBeUnlockedWith address spendTxos tx outIdx (output # rest) unspentTXs =
     (if isSpent spendTxos (ID tx) (int outIdx)
      then scanOutputs CanBeUnlockedWith address spendTxos tx (Suc outIdx) rest unspentTXs
      else if CanBeUnlockedWith output address
      then scanOutputs CanBeUnlockedWith address spendTxos tx (Suc outIdx) rest (unspentTXs @ [tx])
      else scanOutputs CanBeUnlockedWith address spendTxos tx (Suc outIdx) rest unspentTXs)"

text \<open>The loop over \<open>tx.In\<close>: \<open>append\<close> to the (possibly nil) list under the input's \<open>TXid\<close>.\<close>

fun recordInputs ::
  "('i TXInput_scheme \<Rightarrow> string \<Rightarrow> bool) \<Rightarrow> string \<Rightarrow> 'i TXInput_scheme list \<Rightarrow> spendMap \<Rightarrow> spendMap" where
  "recordInputs CanUnlockOutputWith address [] spendTxos = spendTxos"
| "recordInputs CanUnlockOutputWith address (input # rest) spendTxos =
     (if CanUnlockOutputWith input address
      then recordInputs CanUnlockOutputWith address rest
             (spendTxos(TXid input \<mapsto>
                (case spendTxos (TXid input) of None \<Rightarrow> [] | Some spent \<Rightarrow> spent) @ [Voutindex input]))
      else recordInputs CanUnlockOutputWith address rest spendTxos)"

text \<open>The loop over \<open>block.Transactions\<close>; the state is \<open>(unsepentTXs, spendTxos)\<close>.\<close>

fun scanTransactions ::
  "(('i, 'o) Transaction \<Rightarrow> bool) \<Rightarrow> ('o \<Rightarrow> string \<Rightarrow> bool) \<Rightarrow> ('i TXInput_scheme \<Rightarrow> string \<Rightarrow> bool)
     \<Rightarrow> string \<Rightarrow> ('i, 'o) Transaction list \<Rightarrow> ('i, 'o) Transaction list \<times> spendMap
     \<Rightarrow> ('i, 'o) Transaction list \<times> spendMap" where
  "scanTransactions IsCoinbase CanBeUnlockedWith CanUnlockOutputWith address [] st = st"
| "scanTransactions IsCoinbase CanBeUnlockedWith CanUnlockOutputWith address (tx # rest) st =
     (let unspentTXs = scanOutputs CanBeUnlockedWith address (snd st) tx 0 (Out tx) (fst st);
          spendTxos = (if \<not> IsCoinbase tx
                       then recordInputs CanUnlockOutputWith address (In tx) (snd st)
                       else snd st)
      in scanTransactions IsCoinbase CanBeUnlockedWith CanUnlockOutputWith address rest
           (unspentTXs, spendTxos))"

text \<open>The outer \<open>for\<close> loop: one \<open>Next\<close> per round, until a block with an empty \<open>PrevBlockHash\<close>.\<close>

partial_function (option) FindUnspendTransaction_loop ::
  "(bytes \<Rightarrow> ('i, 'o) Block option) \<Rightarrow> faults \<Rightarrow> (('i, 'o) Transaction \<Rightarrow> bool)
     \<Rightarrow> ('o \<Rightarrow> string \<Rightarrow> bool) \<Rightarrow> ('i TXInput_scheme \<Rightarrow> string \<Rightarrow> bool) \<Rightarrow> string
     \<Rightarrow> BlockchainIterator \<Rightarrow> ('i, 'o) Transaction list \<times> spendMap
     \<Rightarrow> ('i, 'o) Transaction list outcome option" where
  "FindUnspendTransaction_loop Deserialize f IsCoinbase CanBeUnlockedWith CanUnlockOutputWith address
       bcIterator st =
     (case Next Deserialize f bcIterator of
        Panicked \<Rightarrow> Some Panicked
      | Returned r \<Rightarrow>
         (let st' = scanTransactions IsCoinbase CanBeUnlockedWith CanUnlockOutputWith address
                      (Transactions (fst r)) st
          in if PrevBlockHash (fst r) = [] then Some (Returned (fst st'))
             else FindUnspendTransaction_loop Deserialize f IsCoinbase CanBeUnlockedWith
                    CanUnlockOutputWith address (snd r) st'))"

definition FindUnspendTransaction ::
  "(bytes \<Rightarrow> ('i, 'o) Block option) \<Rightarrow> faults \<Rightarrow> (('i, 'o) Transaction \<Rightarrow> bool)
     \<Rightarrow> ('o \<Rightarrow> string \<Rightarrow> bool) \<Rightarrow> ('i TXInput_scheme \<Rightarrow> string \<Rightarrow> bool) \<Rightarrow> string
     \<Rightarrow> Blockchain \<Rightarrow> ('i, 'o) Transaction list outcome option" where
  "FindUnspendTransaction Deserialize f IsCoinbase CanBeUnlockedWith CanUnlockOutputWith address bc =
     FindUnspendTransaction_loop Deserialize f IsCoinbase CanBeUnlockedWith CanUnlockOutputWith
       address (Iterator bc) ([], Map.empty)"

subsection \<open>FindUTXO\<close>

text \<open>
  \<open>FindUTXO\<close> returns pointers: it appends \<open>&output\<close>, the address of the inner loop's
  variable. Up to Go 1.21 that variable is one per execution of the inner \<open>for\<close>
  statement, so all the pointers taken while ranging over one transaction are the same
  address, holding the last value assigned; from Go 1.22 on each iteration has a
  variable of its own. The language version is set outside the source file, so it is an
  argument here. Memory is a map from addresses to output values together with the next
  free address.
\<close>

datatype loopvar = PerLoop | PerIteration

type_synonym 'o memory = "(nat \<rightharpoonup> 'o) \<times> nat"

definition newVar :: "'o memory \<Rightarrow> nat \<times> 'o memory" where
  "newVar mem = (snd mem, (fst mem, Suc (snd mem)))"

definition assign :: "nat \<Rightarrow> 'o \<Rightarrow> 'o memory \<Rightarrow> 'o memory" where
  "assign p v mem = ((fst mem)(p \<mapsto> v), snd mem)"

fun FindUTXO_outputs ::
  "loopvar \<Rightarrow> ('o \<Rightarrow> string \<Rightarrow> bool) \<Rightarrow> string \<Rightarrow> nat \<Rightarrow> 'o list \<Rightarrow> nat list \<times> 'o memory
     \<Rightarrow> nat list \<times> 'o memory" where
  "FindUTXO_outputs lv CanBeUnlockedWith addr p [] st = st"
| "FindUTXO_outputs lv CanBeUnlockedWith addr p (out # rest) st =
     (let (q, mem) = (case lv of PerLoop \<Rightarrow> (p, snd st) | PerIteration \<Rightarrow> newVar (snd st));
          mem' = assign q out mem;
          UTXOs = (if CanBeUnlockedWith out addr then fst st @ [q] else fst st)
      in FindUTXO_outputs lv CanBeUnlockedWith addr p rest (UTXOs, mem'))"

fun FindUTXO_txs ::
  "loopvar \<Rightarrow> ('o \<Rightarrow> string \<Rightarrow> bool) \<Rightarrow> string \<Rightarrow> ('i, 'o) Transaction list \<Rightarrow> nat list \<times> 'o memory
     \<Rightarrow> nat list \<times> 'o memory" where
  "FindUTXO_txs lv CanBeUnlockedWith addr [] st = st"
| "FindUTXO_txs lv CanBeUnlockedWith addr (tx # rest) st =
     (let (p, mem) = (case lv of PerLoop \<Rightarrow> newVar (snd st) | PerIteration \<Rightarrow> (0, snd st))
      in FindUTXO_txs lv CanBeUnlockedWith addr rest
           (FindUTXO_outputs lv CanBeUnlockedWith addr p (Out tx) (fst st, mem)))"

definition FindUTXO ::
  "loopvar \<Rightarrow> (bytes \<Rightarrow> ('i, 'o) Block option) \<Rightarrow> faults \<Rightarrow> (('i, 'o) Transaction \<Rightarrow> bool)
     \<Rightarrow> ('o \<Rightarrow> string \<Rightarrow> bool) \<Rightarrow> ('i TXInput_scheme \<Rightarrow> string \<Rightarrow> bool) \<Rightarrow> string
     \<Rightarrow> Blockchain \<Rightarrow> (nat list \<times> 'o memory) outcome option" where
  "FindUTXO lv Deserialize f IsCoinbase CanBeUnlockedWith CanUnlockOutputWith addr bc =
     (case FindUnspendTransaction Deserialize f IsCoinbase CanBeUnlockedWith CanUnlockOutputWith addr bc of
        None \<Rightarrow> None
      | Some Panicked \<Rightarrow> Some Panicked
      | Some (Returned unspentTxs) \<Rightarrow>
          Some (Returned (FindUTXO_txs lv CanBeUnlockedWith addr unspentTxs ([], (Map.empty, 0)))))"

text \<open>The output values a caller reads through the returned pointers.\<close>

definition pointees :: "nat list \<times> 'o memory \<Rightarrow> 'o option list" where
  "pointees r = map (fst (snd r)) (fst r)"

section \<open>Notions used in the statements\<close>

text \<open>The list kept under a key of the spent-output map (nil when the key is absent).\<close>

definition spentList :: "spendMap \<Rightarrow> bytes \<Rightarrow> int list" where
  "spentList spendTxos txID = (case spendTxos txID of None \<Rightarrow> [] | Some spent \<Rightarrow> spent)"

text \<open>
  The output positions that the inputs of the transactions \<open>txs\<close> spend of transaction
  \<open>txID\<close> on behalf of \<open>address\<close>, leaving coinbase transactions out.
\<close>

definition inputRecords ::
  "(('i, 'o) Transaction \<Rightarrow> bool) \<Rightarrow> ('i TXInput_scheme \<Rightarrow> string \<Rightarrow> bool) \<Rightarrow> string
     \<Rightarrow> ('i, 'o) Transaction list \<Rightarrow> bytes \<Rightarrow> int list" where
  "inputRecords IsCoinbase CanUnlockOutputWith address txs txID =
     concat (map (\<lambda>tx. if IsCoinbase tx then []
                        else map Voutindex
                               (filter (\<lambda>i. CanUnlockOutputWith i address \<and> TXid i = txID) (In tx)))
                 txs)"

text \<open>How many outputs of \<open>outs\<close> the address can unlock at a position that is not in \<open>spent\<close>.\<close>

definition unspentCount :: "('o \<Rightarrow> string \<Rightarrow> bool) \<Rightarrow> string \<Rightarrow> int list \<Rightarrow> 'o list \<Rightarrow> nat" where
  "unspentCount CanBeUnlockedWith address spent outs =
     length (filter (\<lambda>(n, out). int n \<notin> set spent \<and> CanBeUnlockedWith out address)
               (enumerate 0 outs))"

text \<open>
  A chain in the store: from hash \<open>h\<close> on, the bucket holds the blocks \<open>bs\<close>, newest first,
  each under the \<open>PrevBlockHash\<close> of the one before, and only the last has an empty
  \<open>PrevBlockHash\<close>.
\<close>

fun storedChain ::
  "(bytes \<Rightarrow> ('i, 'o) Block option) \<Rightarrow> bucket \<Rightarrow> bytes \<Rightarrow> ('i, 'o) Block list \<Rightarrow> bool" where
  "storedChain Deserialize bucket h [] = False"
| "storedChain Deserialize bucket h (b # bs) =
     (Deserialize (bucketGet bucket h) = Some b \<and>
      (if bs = [] then PrevBlockHash b = []
       else PrevBlockHash b \<noteq> [] \<and> storedChain Deserialize bucket (PrevBlockHash b) bs))"

text \<open>A caller appending one block per element of \<open>txss\<close>, with a store that never fails.\<close>

fun AddBlocks ::
  "(bytes \<Rightarrow> ('i, 'o) Transaction list \<Rightarrow> ('i, 'o) Block) \<Rightarrow> (('i, 'o) Block \<Rightarrow> bytes)
     \<Rightarrow> ('i, 'o) Transaction list list \<Rightarrow> Blockchain \<Rightarrow> Blockchain outcome" where
  "AddBlocks NewBlock Serialize [] bc = Returned bc"
| "AddBlocks NewBlock Serialize (txs # rest) bc =
     (case fst (AddBlock NewBlock Serialize noFaults txs bc) of
        Panicked \<Rightarrow> Panicked
      | Returned ok \<Rightarrow>
          AddBlocks NewBlock Serialize rest (snd (AddBlock NewBlock Serialize noFaults txs bc)))"

text \<open>
  The blocks the factory hands out during such a run, newest first: each new block is
  built on the hash of the newest one so far.
\<close>

fun expectedChain ::
  "(bytes \<Rightarrow> ('i, 'o) Transaction list \<Rightarrow> ('i, 'o) Block) \<Rightarrow> ('i, 'o) Block \<Rightarrow> ('i, 'o) Block list
     \<Rightarrow> ('i, 'o) Transaction list list \<Rightarrow> ('i, 'o) Block list" where
  "expectedChain NewBlock newest older [] = newest # older"
| "expectedChain NewBlock newest older (txs # rest) =
     expectedChain NewBlock (NewBlock (Hash newest) txs) (newest # older) rest"

fun linked :: "('i, 'o) Block list \<Rightarrow> bool" where
  "linked [] = False"
| "linked [b] = (PrevBlockHash b = [])"
| "linked (b # c # rest) = (PrevBlockHash b = Hash c \<and> linked (c # rest))"

text \<open>
  The state of a ledger that holds the blocks \<open>bs\<close> (newest first): both heads name the
  newest block, every block is stored under its non-empty hash, and the blocks are linked.
\<close>

definition ledgerInv :: "(('i, 'o) Block \<Rightarrow> bytes) \<Rightarrow> Blockchain \<Rightarrow> ('i, 'o) Block list \<Rightarrow> bool" where
  "ledgerInv Serialize bc bs =
     (case db bc BLOCKBUCKET of
        None \<Rightarrow> False
      | Some bucket \<Rightarrow>
          bs \<noteq> [] \<and> topHash bc = Hash (hd bs) \<and> bucket ''latest'' = Some (Hash (hd bs)) \<and>
          (\<forall>b \<in> set bs. bucket (Hash b) = Some (Serialize b) \<and> Hash b \<noteq> []) \<and> linked bs)"

section \<open>A concrete ledger\<close>

text \<open>
  An instance of everything the source leaves open, small enough to evaluate: an output
  is a value and the address it is locked to, an input carries the address that signed
  it, a coinbase transaction has one input with an empty \<open>TXid\<close> and \<open>Voutindex\<close> \<open>-1\<close>,
  a block's hash is made of its transactions' IDs and its parent's hash, and a block is
  stored as its hash.
\<close>

type_synonym exTransaction = "(string, int \<times> string) Transaction"
type_synonym exBlock = "(string, int \<times> string) Block"

definition exCanBeUnlockedWith :: "int \<times> string \<Rightarrow> string \<Rightarrow> bool" where
  "exCanBeUnlockedWith out address = (snd out = address)"

definition exCanUnlockOutputWith :: "string TXInput_scheme \<Rightarrow> string \<Rightarrow> bool" where
  "exCanUnlockOutputWith input address = (TXInput.more input = address)"

definition exIsCoinbase :: "exTransaction \<Rightarrow> bool" where
  "exIsCoinbase tx = (case In tx of [i] \<Rightarrow> TXid i = [] \<and> Voutindex i = - 1 | _ \<Rightarrow> False)"

definition exNewBlock :: "bytes \<Rightarrow> exTransaction list \<Rightarrow> exBlock" where
  "exNewBlock prevHash txs =
     \<lparr>Hash = concat (map ID txs) @ CHR ''/'' # prevHash, PrevBlockHash = prevHash, Transactions = txs\<rparr>"

definition exT1 :: exTransaction where
  "exT1 = \<lparr>ID = ''t1'', In = [\<lparr>TXid = [], Voutindex = - 1, \<dots> = ''reward''\<rparr>], Out = [(10, ''A'')]\<rparr>"

definition exT1two :: exTransaction where
  "exT1two = \<lparr>ID = ''t1'', In = [\<lparr>TXid = [], Voutindex = - 1, \<dots> = ''reward''\<rparr>],
     Out = [(10, ''A''), (20, ''A'')]\<rparr>"

definition exT2 :: exTransaction where
  "exT2 = \<lparr>ID = ''t2'', In = [\<lparr>TXid = ''t1'', Voutindex = 0, \<dots> = ''A''\<rparr>], Out = [(10, ''B'')]\<rparr>"

definition exT3 :: exTransaction where
  "exT3 = \<lparr>ID = ''t3'', In = [\<lparr>TXid = ''t3'', Voutindex = 0, \<dots> = ''A''\<rparr>], Out = [(5, ''A'')]\<rparr>"

definition exT4 :: exTransaction where
  "exT4 = \<lparr>ID = ''t4'', In = [\<lparr>TXid = [], Voutindex = - 1, \<dots> = ''A''\<rparr>], Out = [(50, ''A'')]\<rparr>"

definition exGenesis :: exBlock where
  "exGenesis = \<lparr>Hash = ''g'', PrevBlockHash = [], Transactions = [exT1]\<rparr>"

definition exGenesisTwo :: exBlock where
  "exGenesisTwo = \<lparr>Hash = ''h'', PrevBlockHash = [], Transactions = [exT1two]\<rparr>"

definition exSerialize :: "exBlock \<Rightarrow> bytes" where
  "exSerialize b = Hash b"

definition exDeserialize :: "bytes \<Rightarrow> exBlock option" where
  "exDeserialize s =
     (if s = ''g'' then Some exGenesis
      else if s = ''h'' then Some exGenesisTwo
      else if s = ''t2/g'' then Some (exNewBlock ''g'' [exT2])
      else if s = ''t2/h'' then Some (exNewBlock ''h'' [exT2])
      else if s = ''t3/g'' then Some (exNewBlock ''g'' [exT3])
      else if s = ''t3/t2/g'' then Some (exNewBlock ''t2/g'' [exT3])
      else None)"

text \<open>
  The ledgers these blocks make: after the genesis block alone, after a block with
  \<open>exT2\<close> on top, and so on. The buckets are written in the order of the \<open>Put\<close>s.
\<close>

definition exLedger :: Blockchain where
  "exLedger = \<lparr>topHash = ''g'', db = [BLOCKBUCKET \<mapsto> [''g'' \<mapsto> ''g'', ''latest'' \<mapsto> ''g'']]\<rparr>"

definition exLedgerSpent :: Blockchain where
  "exLedgerSpent = \<lparr>topHash = ''t2/g'',
     db = [BLOCKBUCKET \<mapsto>
            [''g'' \<mapsto> ''g'', ''latest'' \<mapsto> ''g'', ''t2/g'' \<mapsto> ''t2/g'', ''latest'' \<mapsto> ''t2/g'']]\<rparr>"

definition exLedgerTwo :: Blockchain where
  "exLedgerTwo = \<lparr>topHash = ''h'', db = [BLOCKBUCKET \<mapsto> [''h'' \<mapsto> ''h'', ''latest'' \<mapsto> ''h'']]\<rparr>"

definition exLedgerTwoSpent :: Blockchain where
  "exLedgerTwoSpent = \<lparr>topHash = ''t2/h'',
     db = [BLOCKBUCKET \<mapsto>
            [''h'' \<mapsto> ''h'', ''latest'' \<mapsto> ''h'', ''t2/h'' \<mapsto> ''t2/h'', ''latest'' \<mapsto> ''t2/h'']]\<rparr>"

definition exLedgerSelf :: Blockchain where
  "exLedgerSelf = \<lparr>topHash = ''t3/g'',
     db = [BLOCKBUCKET \<mapsto>
            [''g'' \<mapsto> ''g'', ''latest'' \<mapsto> ''g'', ''t3/g'' \<mapsto> ''t3/g'', ''latest'' \<mapsto> ''t3/g'']]\<rparr>"

definition exLedgerLong :: Blockchain where
  "exLedgerLong = \<lparr>topHash = ''t3/t2/g'',
     db = [BLOCKBUCKET \<mapsto>
            [''g'' \<mapsto> ''g'', ''latest'' \<mapsto> ''g'', ''t2/g'' \<mapsto> ''t2/g'', ''latest'' \<mapsto> ''t2/g'',
             ''t3/t2/g'' \<mapsto> ''t3/t2/g'', ''latest'' \<mapsto> ''t3/t2/g'']]\<rparr>"

section \<open>Properties of the scan\<close>

text \<open>
  In the lemmas and theorems below \<open>D\<close> stands for \<open>Deserialize\<close>, \<open>S\<close> for \<open>Serialize\<close>,
  \<open>NB\<close> for \<open>NewBlock\<close>, \<open>G\<close> for the genesis block, \<open>cb\<close> for \<open>IsCoinbase\<close>, \<open>can\<close> for
  \<open>CanBeUnlockedWith\<close>, \<open>cu\<close> for \<open>CanUnlockOutputWith\<close>, \<open>a\<close> for the address, \<open>f\<close> for the
  store's faults during the call and \<open>lv\<close> for the meaning of the loop variable.
\<close>

lemma isSpent_spentList: "isSpent s k j = (j \<in> set (spentList s k))"
  by (simp add: isSpent_def spentList_def split: option.splits)

lemma spentList_empty: "spentList Map.empty k = []"
  by (simp add: spentList_def)

lemma spentList_recordInputs:
  "spentList (recordInputs cu a ins s) k =
     spentList s k @ map Voutindex (filter (\<lambda>i. cu i a \<and> TXid i = k) ins)"
  by (induction ins arbitrary: s) (auto simp: spentList_def)

lemma scanOutputs_eq:
  "scanOutputs can a s tx j outs acc =
     acc @ replicate (length (filter (\<lambda>(n, out). int n \<notin> set (spentList s (ID tx)) \<and> can out a)
                                (enumerate j outs))) tx"
  by (induction outs arbitrary: j acc) (auto simp: isSpent_spentList replicate_app_Cons_same)

lemma scanTransactions_append:
  "scanTransactions cb can cu a (xs @ ys) st =
     scanTransactions cb can cu a ys (scanTransactions cb can cu a xs st)"
  by (induction xs arbitrary: st) (auto simp: Let_def)

lemma snd_scanTransactions:
  "snd (scanTransactions cb can cu a txs st) =
     foldl (\<lambda>s tx. if \<not> cb tx then recordInputs cu a (In tx) s else s) (snd st) txs"
  by (induction txs arbitrary: st) (simp_all add: Let_def)

lemma spentList_scanTransactions:
  "spentList (snd (scanTransactions cb can cu a txs st)) k =
     spentList (snd st) k @ inputRecords cb cu a txs k"
  by (induction txs arbitrary: st) (auto simp: Let_def inputRecords_def spentList_recordInputs)

lemma scanTransactions_single:
  "fst (scanTransactions cb can cu a [tx] st) =
     fst st @ replicate (unspentCount can a (spentList (snd st) (ID tx)) (Out tx)) tx"
  by (simp add: Let_def scanOutputs_eq unspentCount_def)


lemma scanTransactions_subset:
  "set (fst (scanTransactions cb can cu a txs st)) \<subseteq> set (fst st) \<union> set txs"
proof (induction txs arbitrary: st)
  case Nil then show ?case by simp
next
  case (Cons tx txs)
  let ?st = "(scanOutputs can a (snd st) tx 0 (Out tx) (fst st),
              if \<not> cb tx then recordInputs cu a (In tx) (snd st) else snd st)"
  have "set (fst ?st) \<subseteq> set (fst st) \<union> {tx}" by (auto simp: scanOutputs_eq)
  with Cons.IH[of ?st] show ?case by (auto simp: Let_def)
qed

lemma scanTransactions_later:
  "\<exists>w. fst (scanTransactions cb can cu a txs st) = fst st @ w \<and> set w \<subseteq> set txs"
proof (induction txs arbitrary: st)
  case Nil then show ?case by simp
next
  case (Cons tx txs)
  let ?st = "(scanOutputs can a (snd st) tx 0 (Out tx) (fst st),
              if \<not> cb tx then recordInputs cu a (In tx) (snd st) else snd st)"
  from Cons.IH[of ?st] obtain w where
    w: "fst (scanTransactions cb can cu a txs ?st) = fst ?st @ w" "set w \<subseteq> set txs" by blast
  obtain n where "fst ?st = fst st @ replicate n tx" by (simp add: scanOutputs_eq)
  with w have "fst (scanTransactions cb can cu a (tx # txs) st) = fst st @ (replicate n tx @ w)"
    "set (replicate n tx @ w) \<subseteq> set (tx # txs)" by (auto simp: Let_def)
  then show ?case by blast
qed


lemma unspentCount_all:
  assumes "\<forall>n < length outs. can (outs ! n) a \<longrightarrow> int n \<notin> set spent"
  shows "unspentCount can a spent outs = length (filter (\<lambda>out. can out a) outs)"
proof -
  have "filter (\<lambda>(n, out). int n \<notin> set spent \<and> can out a) (enumerate 0 outs) =
        filter (\<lambda>p. can (snd p) a) (enumerate 0 outs)"
    using assms by (intro filter_cong) (auto simp: in_set_enumerate_eq)
  moreover have "length (filter (\<lambda>out. can out a) (map snd (enumerate 0 outs))) =
        length (filter ((\<lambda>out. can out a) \<circ> snd) (enumerate 0 outs))"
    by (rule length_filter_map)
  ultimately show ?thesis by (simp add: unspentCount_def comp_def)
qed


lemma walk_decompose:
  "\<exists>later. fst (scanTransactions cb can cu a (pre @ tx # post) ([], Map.empty)) =
      fst (scanTransactions cb can cu a pre ([], Map.empty))
        @ replicate (unspentCount can a (inputRecords cb cu a pre (ID tx)) (Out tx)) tx @ later
      \<and> set later \<subseteq> set post"
proof -
  let ?s0 = "([], Map.empty) :: ('a, 'b) Transaction list \<times> spendMap"
  let ?st = "scanTransactions cb can cu a pre ?s0"
  have sl: "spentList (snd ?st) (ID tx) = inputRecords cb cu a pre (ID tx)"
    by (simp add: spentList_scanTransactions spentList_empty)
  have one: "fst (scanTransactions cb can cu a [tx] ?st) =
               fst ?st @ replicate (unspentCount can a (inputRecords cb cu a pre (ID tx)) (Out tx)) tx"
    by (simp only: scanTransactions_single sl)
  obtain later where
    "fst (scanTransactions cb can cu a post (scanTransactions cb can cu a [tx] ?st)) =
       fst (scanTransactions cb can cu a [tx] ?st) @ later" "set later \<subseteq> set post"
    using scanTransactions_later by blast
  then have "fst (scanTransactions cb can cu a (pre @ tx # post) ?s0) =
      fst ?st @ replicate (unspentCount can a (inputRecords cb cu a pre (ID tx)) (Out tx)) tx @ later
      \<and> set later \<subseteq> set post"
    using one scanTransactions_append[of cb can cu a pre "tx # post" ?s0]
      scanTransactions_append[of cb can cu a "[tx]" post ?st] by simp
  then show ?thesis by blast
qed


subsection \<open>The walk over a stored chain\<close>

lemma loop_chain:
  "storedChain D bucket (currentHash it) bs \<Longrightarrow> iterDb it BLOCKBUCKET = Some bucket \<Longrightarrow> \<not> viewErr f \<Longrightarrow>
   FindUnspendTransaction_loop D f cb can cu a it st =
     Some (Returned (fst (scanTransactions cb can cu a (concat (map Transactions bs)) st)))"
proof (induction bs arbitrary: it st)
  case Nil then show ?case by simp
next
  case (Cons b bs)
  have nx: "Next D f it = Returned (b, it\<lparr>currentHash := PrevBlockHash b\<rparr>)"
    using Cons.prems by (simp add: Next_def)
  show ?case
  proof (cases "bs = []")
    case True
    then show ?thesis using Cons.prems nx
      by (subst FindUnspendTransaction_loop.simps) (simp add: Let_def)
  next
    case False
    then have "storedChain D bucket (currentHash (it\<lparr>currentHash := PrevBlockHash b\<rparr>)) bs"
      and ne: "PrevBlockHash b \<noteq> []" using Cons.prems by auto
    from Cons.IH[OF this(1), of "scanTransactions cb can cu a (Transactions b) st"] Cons.prems ne nx
    show ?thesis
      by (subst FindUnspendTransaction_loop.simps) (simp add: Let_def scanTransactions_append)
  qed
qed

lemma FindUnspendTransaction_chain:
  assumes "storedChain D bucket (topHash bc) bs" and "db bc BLOCKBUCKET = Some bucket" and "\<not> viewErr f"
  shows "FindUnspendTransaction D f cb can cu a bc =
     Some (Returned (fst (scanTransactions cb can cu a (concat (map Transactions bs)) ([], Map.empty))))"
  unfolding FindUnspendTransaction_def
  by (rule loop_chain[where bucket = bucket]) (use assms in \<open>simp_all add: Iterator_def\<close>)

lemma IterateBlockchain_loop_chain:
  "storedChain D bucket (currentHash it) bs \<Longrightarrow> iterDb it BLOCKBUCKET = Some bucket \<Longrightarrow> \<not> viewErr f \<Longrightarrow>
   IterateBlockchain_loop D f it printed = Some (Returned (printed @ bs))"
proof (induction bs arbitrary: it printed)
  case Nil then show ?case by simp
next
  case (Cons b bs)
  have nx: "Next D f it = Returned (b, it\<lparr>currentHash := PrevBlockHash b\<rparr>)"
    using Cons.prems by (simp add: Next_def)
  show ?case
  proof (cases "bs = []")
    case True
    then show ?thesis using Cons.prems nx
      by (subst IterateBlockchain_loop.simps) simp
  next
    case False
    then have "storedChain D bucket (currentHash (it\<lparr>currentHash := PrevBlockHash b\<rparr>)) bs"
      and ne: "PrevBlockHash b \<noteq> []" using Cons.prems by auto
    from Cons.IH[OF this(1), of "printed @ [b]"] Cons.prems ne nx
    show ?thesis
      by (subst IterateBlockchain_loop.simps) simp
  qed
qed

section \<open>Properties of a ledger built by appending\<close>

lemma expectedChain_suffix: "\<exists>newer. expectedChain NB newest older txss = newer @ newest # older"
proof (induction txss arbitrary: newest older)
  case Nil then show ?case by simp
next
  case (Cons txs rest)
  from Cons.IH[of "NB (Hash newest) txs" "newest # older"] obtain newer where
    "expectedChain NB (NB (Hash newest) txs) (newest # older) rest = newer @ NB (Hash newest) txs # newest # older"
    by blast
  then have "expectedChain NB newest older (txs # rest) = (newer @ [NB (Hash newest) txs]) @ newest # older"
    by simp
  then show ?case by blast
qed

lemma length_expectedChain: "length (expectedChain NB newest older txss) = length txss + length older + 1"
  by (induction txss arbitrary: newest older) simp_all

lemma last_expectedChain: "last (expectedChain NB newest older txss) = last (newest # older)"
  by (induction txss arbitrary: newest older) simp_all

lemma ledgerInv_create:
  assumes "CreateBlockchain G S f file = Returned bc" and "file BLOCKBUCKET = None"
    and "PrevBlockHash G = []" and "Hash G \<noteq> ''latest''"
  shows "ledgerInv S bc [G]"
  using assms
  by (auto simp: CreateBlockchain_def ledgerInv_def bucketPut_def split: if_splits)

lemma ledgerInv_AddBlock:
  assumes inv: "ledgerInv S bc (newest # older)"
    and ok: "fst (AddBlock NB S noFaults txs bc) = Returned r"
    and factory: "\<forall>p t. PrevBlockHash (NB p t) = p"
    and fresh: "Hash (NB (Hash newest) txs) \<notin> Hash ` set (newest # older)"
    and reserved: "Hash (NB (Hash newest) txs) \<noteq> ''latest''" "''latest'' \<notin> Hash ` set (newest # older)"
  shows "ledgerInv S (snd (AddBlock NB S noFaults txs bc)) (NB (Hash newest) txs # newest # older)"
proof -
  let ?nb = "NB (Hash newest) txs"
  from inv obtain bucket where
    bucket: "db bc BLOCKBUCKET = Some bucket" and
    head: "topHash bc = Hash newest" "bucket ''latest'' = Some (Hash newest)" and
    stored: "\<forall>b \<in> set (newest # older). bucket (Hash b) = Some (S b) \<and> Hash b \<noteq> []" and
    lk: "linked (newest # older)"
    by (auto simp: ledgerInv_def split: option.splits)
  have th: "AddBlock_tophash noFaults bc = Returned (Hash newest)"
    using bucket head by (simp add: AddBlock_tophash_def noFaults_def bucketGet_def)
  from ok th have upd: "fst (AddBlock_update S noFaults ?nb bc) = Returned r"
    by (simp add: AddBlock_def)
  then obtain b1 b2 where
    p1: "bucketPut False bucket (Hash ?nb) (S ?nb) = Some b1" and
    p2: "bucketPut False b1 ''latest'' (Hash ?nb) = Some b2" and
    res: "snd (AddBlock_update S noFaults ?nb bc) =
            bc\<lparr>topHash := Hash ?nb, db := (db bc)(BLOCKBUCKET \<mapsto> b2)\<rparr>"
    using bucket by (auto simp: AddBlock_update_def Let_def noFaults_def split: option.splits)
  from p1 have b1: "b1 = bucket(Hash ?nb \<mapsto> S ?nb)" and ne: "Hash ?nb \<noteq> []"
    by (auto simp: bucketPut_def split: if_splits)
  from p2 have b2: "b2 = b1(''latest'' \<mapsto> Hash ?nb)"
    by (auto simp: bucketPut_def split: if_splits)
  have snd_eq: "snd (AddBlock NB S noFaults txs bc) =
      bc\<lparr>topHash := Hash ?nb, db := (db bc)(BLOCKBUCKET \<mapsto> b2)\<rparr>"
    using th res by (simp add: AddBlock_def)
  have d1: "\<forall>b \<in> set (newest # older). Hash b \<noteq> Hash ?nb" using fresh by (metis imageI)
  have d2: "\<forall>b \<in> set (newest # older). Hash b \<noteq> ''latest''" using reserved(2) by (metis imageI)
  have "\<forall>b \<in> set (?nb # newest # older). b2 (Hash b) = Some (S b) \<and> Hash b \<noteq> []"
    using stored d1 d2 reserved(1) ne by (simp add: b1 b2)
  moreover have "linked (?nb # newest # older)" using lk factory by simp
  ultimately show ?thesis
    by (simp add: ledgerInv_def snd_eq b2)
qed

lemma ledgerInv_AddBlocks:
  assumes "ledgerInv S bc (newest # older)"
    and "AddBlocks NB S txss bc = Returned bc'"
    and "\<forall>p t. PrevBlockHash (NB p t) = p"
    and "distinct (map Hash (expectedChain NB newest older txss))"
    and "''latest'' \<notin> Hash ` set (expectedChain NB newest older txss)"
  shows "ledgerInv S bc' (expectedChain NB newest older txss)"
  using assms
proof (induction txss arbitrary: bc newest older)
  case Nil then show ?case by simp
next
  case (Cons txs rest)
  let ?nb = "NB (Hash newest) txs"
  let ?r = "AddBlock NB S noFaults txs bc"
  from Cons.prems(2) obtain ok where ok: "fst ?r = Returned ok"
    and run: "AddBlocks NB S rest (snd ?r) = Returned bc'"
    by (auto split: outcome.splits)
  obtain newer where sfx: "expectedChain NB ?nb (newest # older) rest = newer @ ?nb # newest # older"
    using expectedChain_suffix by blast
  have fresh: "Hash ?nb \<notin> Hash ` set (newest # older)"
    using Cons.prems(4) by (auto simp: sfx)
  have res: "Hash ?nb \<noteq> ''latest''" "''latest'' \<notin> Hash ` set (newest # older)"
    using Cons.prems(5) by (auto simp: sfx)
  have inv': "ledgerInv S (snd ?r) (?nb # newest # older)"
    by (rule ledgerInv_AddBlock[OF Cons.prems(1) ok Cons.prems(3) fresh res])
  show ?case
    using Cons.IH[OF inv' run Cons.prems(3)] Cons.prems(4,5) by simp
qed

lemma linked_storedChain:
  assumes "linked bs" and "\<forall>b \<in> set bs. bucket (Hash b) = Some (S b) \<and> Hash b \<noteq> []"
    and "\<forall>b \<in> set bs. D (S b) = Some b"
  shows "storedChain D bucket (Hash (hd bs)) bs"
  using assms
proof (induction bs rule: linked.induct)
  case 1 then show ?case by simp
next
  case (2 b) then show ?case by (simp add: bucketGet_def)
next
  case (3 b c rest)
  then have "storedChain D bucket (Hash c) (c # rest)" by simp
  with 3 show ?case by (simp add: bucketGet_def)
qed

section \<open>The concrete ledger, evaluated\<close>

lemmas ex_defs = exCanBeUnlockedWith_def exCanUnlockOutputWith_def exIsCoinbase_def exNewBlock_def
  exT1_def exT1two_def exT2_def exT3_def exT4_def exGenesis_def exGenesisTwo_def exSerialize_def
  exDeserialize_def exLedger_def exLedgerSpent_def exLedgerTwo_def exLedgerTwoSpent_def exLedgerSelf_def
  exLedgerLong_def BLOCKBUCKET_def noFaults_def bucketGet_def bucketPut_def

lemma ex_create: "CreateBlockchain exGenesis exSerialize noFaults Map.empty = Returned exLedger"
  by (simp add: CreateBlockchain_def ex_defs)

lemma ex_create_two: "CreateBlockchain exGenesisTwo exSerialize noFaults Map.empty = Returned exLedgerTwo"
  by (simp add: CreateBlockchain_def ex_defs)

lemma ex_add: "AddBlock exNewBlock exSerialize noFaults [exT2] exLedger = (Returned True, exLedgerSpent)"
  by (simp add: AddBlock_def AddBlock_tophash_def AddBlock_update_def Let_def ex_defs)

lemma ex_add_two: "AddBlock exNewBlock exSerialize noFaults [exT2] exLedgerTwo = (Returned True, exLedgerTwoSpent)"
  by (simp add: AddBlock_def AddBlock_tophash_def AddBlock_update_def Let_def ex_defs)

lemma ex_add_self: "AddBlock exNewBlock exSerialize noFaults [exT3] exLedger = (Returned True, exLedgerSelf)"
  by (simp add: AddBlock_def AddBlock_tophash_def AddBlock_update_def Let_def ex_defs)

lemma ex_add_long:
  "AddBlock exNewBlock exSerialize noFaults [exT3] exLedgerSpent = (Returned True, exLedgerLong)"
  by (simp add: AddBlock_def AddBlock_tophash_def AddBlock_update_def Let_def ex_defs)

lemma ex_unspent_two_spent:
  "FindUnspendTransaction exDeserialize noFaults exIsCoinbase exCanBeUnlockedWith exCanUnlockOutputWith ''A''
     exLedgerTwoSpent = Some (Returned [exT1two])"
proof -
  have c: "storedChain exDeserialize
      [''h'' \<mapsto> ''h'', ''latest'' \<mapsto> ''h'', ''t2/h'' \<mapsto> ''t2/h'', ''latest'' \<mapsto> ''t2/h'']
      (topHash exLedgerTwoSpent) [exNewBlock ''h'' [exT2], exGenesisTwo]"
    by (simp add: ex_defs)
  have b: "db exLedgerTwoSpent BLOCKBUCKET =
      Some [''h'' \<mapsto> ''h'', ''latest'' \<mapsto> ''h'', ''t2/h'' \<mapsto> ''t2/h'', ''latest'' \<mapsto> ''t2/h'']"
    by (simp add: ex_defs)
  have v: "\<not> viewErr noFaults" by (simp add: noFaults_def)
  have "fst (scanTransactions exIsCoinbase exCanBeUnlockedWith exCanUnlockOutputWith ''A''
          (concat (map Transactions [exNewBlock ''h'' [exT2], exGenesisTwo])) ([], Map.empty)) = [exT1two]"
    by (simp add: Let_def isSpent_def exIsCoinbase_def exCanBeUnlockedWith_def exCanUnlockOutputWith_def
          exNewBlock_def exGenesisTwo_def exT2_def exT1two_def)
  then show ?thesis
    by (simp only: FindUnspendTransaction_chain[OF c b v])
qed

section \<open>The claims\<close>



text \<open>
  C2. The claim asks for exactly \<open>[O1]\<close> when \<open>T1\<close> pays \<open>A\<close> twice and only \<open>O0\<close> is spent.
  On the ledger \<open>exLedgerTwoSpent\<close> (genesis block with \<open>exT1two\<close>, then a block with
  \<open>exT2\<close>, which spends output \<open>0\<close>) \<open>FindUnspendTransaction\<close> returns the transaction once,
  and \<open>FindUTXO\<close> then collects both of its outputs: the spent \<open>(10, A)\<close> and \<open>(20, A)\<close> with
  a variable per iteration, and two pointers to one variable holding \<open>(20, A)\<close> with a
  variable per loop. Neither is \<open>[O1]\<close>.
\<close>

theorem FindUTXO_returns_spent_output:
  "(\<exists>r. FindUTXO PerIteration exDeserialize noFaults exIsCoinbase exCanBeUnlockedWith exCanUnlockOutputWith ''A''
      exLedgerTwoSpent = Some (Returned r) \<and> pointees r = [Some (10, ''A''), Some (20, ''A'')]) \<and>
   (\<exists>r. FindUTXO PerLoop exDeserialize noFaults exIsCoinbase exCanBeUnlockedWith exCanUnlockOutputWith ''A''
      exLedgerTwoSpent = Some (Returned r) \<and> pointees r = [Some (20, ''A''), Some (20, ''A'')])"
  by (simp add: FindUTXO_def ex_unspent_two_spent pointees_def newVar_def assign_def Let_def
        exT1two_def exCanBeUnlockedWith_def)

text \<open>
  C3. The claim asks that a write transaction failing before its commit leaves the
  in-memory head as it was. On \<open>exLedger\<close>, with a commit that fails, \<open>AddBlock\<close> returns
  \<open>true\<close>, the store is as before (head \<open>g\<close>), and \<open>topHash\<close> is the hash of a block that
  was never stored: the next walk from it panics.
\<close>

theorem AddBlock_commit_failure_moves_head:
  "AddBlock exNewBlock exSerialize (noFaults\<lparr>commitErr := True\<rparr>) [exT2] exLedger =
     (Returned True, exLedger\<lparr>topHash := ''t2/g''\<rparr>) \<and>
   topHash exLedger = ''g'' \<and>
   db exLedger BLOCKBUCKET = Some [''g'' \<mapsto> ''g'', ''latest'' \<mapsto> ''g''] \<and>
   Next exDeserialize noFaults (Iterator (exLedger\<lparr>topHash := ''t2/g''\<rparr>)) = Panicked"
  by (simp add: AddBlock_def AddBlock_tophash_def AddBlock_update_def Let_def Next_def Iterator_def
        ex_defs)

text \<open>
  C4. A chain holds a transaction \<open>T1\<close>, once, with exactly two outputs that address \<open>A\<close>
  can unlock, and no input nearer the head that \<open>A\<close> unlocks refers to either of them.
  Then \<open>T1\<close> occurs exactly twice in the list \<open>FindUnspendTransaction(A)\<close> returns.
\<close>

theorem duplicate_per_output:
  assumes chain: "storedChain D bucket (topHash bc) bs"
    and bucket: "db bc BLOCKBUCKET = Some bucket"
    and nv: "\<not> viewErr f"
    and walk: "concat (map Transactions bs) = pre @ T1 # post"
    and once: "T1 \<notin> set pre" "T1 \<notin> set post"
    and two: "length (filter (\<lambda>out. can out A) (Out T1)) = 2"
    and unspent: "\<forall>t \<in> set pre. \<forall>i \<in> set (In t). \<forall>n < length (Out T1).
        \<not> cb t \<and> cu i A \<and> TXid i = ID T1 \<and> can (Out T1 ! n) A \<longrightarrow> Voutindex i \<noteq> int n"
  shows "\<exists>r. FindUnspendTransaction D f cb can cu A bc = Some (Returned r) \<and> count_list r T1 = 2"
proof -
  let ?s0 = "([], Map.empty) :: ('a, 'b) Transaction list \<times> spendMap"
  have rec: "\<forall>n < length (Out T1). can (Out T1 ! n) A \<longrightarrow> int n \<notin> set (inputRecords cb cu A pre (ID T1))"
    using unspent by (fastforce simp: inputRecords_def split: if_splits)
  have cnt: "unspentCount can A (inputRecords cb cu A pre (ID T1)) (Out T1) = 2"
    using unspentCount_all[of "Out T1" can A "inputRecords cb cu A pre (ID T1)"] rec two by simp
  obtain later where dec:
    "fst (scanTransactions cb can cu A (pre @ T1 # post) ?s0) =
       fst (scanTransactions cb can cu A pre ?s0) @ replicate 2 T1 @ later"
    and later: "set later \<subseteq> set post"
    using walk_decompose[of cb can cu A pre T1 post] cnt by auto
  have "set (fst (scanTransactions cb can cu A pre ?s0)) \<subseteq> set pre"
    using scanTransactions_subset[of cb can cu A pre ?s0] by simp
  then have c1: "count_list (fst (scanTransactions cb can cu A pre ?s0)) T1 = 0"
    using once by (auto simp: count_list_0_iff)
  have c2: "count_list later T1 = 0" using later once by (auto simp: count_list_0_iff)
  show ?thesis
    using FindUnspendTransaction_chain[OF chain bucket nv, of cb can cu A] walk dec c1 c2
    by (simp add: numeral_2_eq_2)
qed

theorem duplicate_per_output_witness:
  "\<exists>r. FindUnspendTransaction exDeserialize noFaults exIsCoinbase exCanBeUnlockedWith
          exCanUnlockOutputWith ''A'' exLedgerTwo = Some (Returned r) \<and> count_list r exT1two = 2"
  by (rule duplicate_per_output[where
        bucket = "[''h'' \<mapsto> ''h'', ''latest'' \<mapsto> ''h'']" and bs = "[exGenesisTwo]"
        and pre = "[]" and post = "[]"])
     (simp_all add: ex_defs)

text \<open>
  C5. When the walk reaches a transaction \<open>tx\<close>, having processed the transactions \<open>pre\<close>
  (those of the blocks nearer the head and those before \<open>tx\<close> in its own block), \<open>tx\<close> is
  added once for every output the address can unlock whose position is not among the
  records made by the inputs of \<open>pre\<close>. The inputs of \<open>tx\<close> itself play no part: the result
  is what \<open>pre\<close> contributed, then these copies of \<open>tx\<close>, then what the rest contributes.
  In the witness \<open>exT3\<close> has an input that spends its own output \<open>0\<close>, and is returned.
\<close>

theorem own_inputs_after_outputs:
  assumes chain: "storedChain D bucket (topHash bc) bs"
    and bucket: "db bc BLOCKBUCKET = Some bucket"
    and nv: "\<not> viewErr f"
    and walk: "concat (map Transactions bs) = pre @ tx # post"
  shows "\<exists>later.
           FindUnspendTransaction D f cb can cu a bc =
             Some (Returned (fst (scanTransactions cb can cu a pre ([], Map.empty))
                     @ replicate (unspentCount can a (inputRecords cb cu a pre (ID tx)) (Out tx)) tx
                     @ later))"
  using walk_decompose[of cb can cu a pre tx post]
    FindUnspendTransaction_chain[OF chain bucket nv, of cb can cu a] walk by auto

theorem own_inputs_after_outputs_witness:
  "In exT3 = [\<lparr>TXid = ID exT3, Voutindex = 0, \<dots> = ''A''\<rparr>] \<and>
   (\<exists>later. FindUnspendTransaction exDeserialize noFaults exIsCoinbase exCanBeUnlockedWith
          exCanUnlockOutputWith ''A'' exLedgerSelf = Some (Returned (exT3 # later)))"
proof -
  have c: "storedChain exDeserialize
     [''g'' \<mapsto> ''g'', ''latest'' \<mapsto> ''g'', ''t3/g'' \<mapsto> ''t3/g'', ''latest'' \<mapsto> ''t3/g'']
     (topHash exLedgerSelf) [exNewBlock ''g'' [exT3], exGenesis]"
    by (simp add: ex_defs)
  have b: "db exLedgerSelf BLOCKBUCKET =
     Some [''g'' \<mapsto> ''g'', ''latest'' \<mapsto> ''g'', ''t3/g'' \<mapsto> ''t3/g'', ''latest'' \<mapsto> ''t3/g'']"
    by (simp add: ex_defs)
  have v: "\<not> viewErr noFaults" by (simp add: noFaults_def)
  have w: "concat (map Transactions [exNewBlock ''g'' [exT3], exGenesis]) = [] @ exT3 # [exT1]"
    by (simp add: ex_defs)
  have n: "unspentCount exCanBeUnlockedWith ''A''
             (inputRecords exIsCoinbase exCanUnlockOutputWith ''A'' [] (ID exT3)) (Out exT3) = 1"
    by (simp add: unspentCount_def inputRecords_def enumerate_simps exT3_def exCanBeUnlockedWith_def)
  show ?thesis
    using own_inputs_after_outputs[OF c b v w, of exIsCoinbase exCanBeUnlockedWith exCanUnlockOutputWith "''A''"] n
    by (simp add: exT3_def)
qed



text \<open>
  C7. A ledger is created on a new store and \<open>N\<close> blocks are appended, every call
  returning and committing. The walk of \<open>IterateBlockchain\<close> (one \<open>Next\<close> per round, stopping
  after the block with an empty \<open>PrevBlockHash\<close>) then returns: its result is the
  appended blocks from the newest to the oldest with the genesis block last, \<open>N + 1\<close>
  blocks, starting at the head. Assumed of the collaborators: the genesis block has an
  empty \<open>PrevBlockHash\<close>, the factory sets \<open>PrevBlockHash\<close> to its argument, every block
  decodes to itself, the blocks' hashes differ from one another and from the reserved
  key.
\<close>

theorem full_walk_returns_all_blocks:
  assumes create: "CreateBlockchain G S f0 file = Returned bc0"
    and new: "file BLOCKBUCKET = None"
    and run: "AddBlocks NB S txss bc0 = Returned bc"
    and genesis: "PrevBlockHash G = []"
    and factory: "\<forall>p t. PrevBlockHash (NB p t) = p"
    and codec: "\<forall>b \<in> set (expectedChain NB G [] txss). D (S b) = Some b"
    and unique: "distinct (map Hash (expectedChain NB G [] txss))"
    and reserved: "''latest'' \<notin> Hash ` set (expectedChain NB G [] txss)"
    and nv: "\<not> viewErr f"
  shows "IterateBlockchain D f bc = Some (Returned (expectedChain NB G [] txss)) \<and>
         length (expectedChain NB G [] txss) = length txss + 1 \<and>
         PrevBlockHash (last (expectedChain NB G [] txss)) = [] \<and>
         Hash (hd (expectedChain NB G [] txss)) = topHash bc"
proof -
  let ?bs = "expectedChain NB G [] txss"
  obtain newer where sfx: "?bs = newer @ [G]" using expectedChain_suffix[of NB G "[]" txss] by auto
  then have "Hash G \<noteq> ''latest''" using reserved by auto
  then have inv0: "ledgerInv S bc0 [G]" using ledgerInv_create[OF create new genesis] by simp
  have inv: "ledgerInv S bc ?bs"
    by (rule ledgerInv_AddBlocks[OF inv0 run factory unique reserved])
  then obtain bucket where
    bucket: "db bc BLOCKBUCKET = Some bucket" and
    head: "topHash bc = Hash (hd ?bs)" and
    stored: "\<forall>b \<in> set ?bs. bucket (Hash b) = Some (S b) \<and> Hash b \<noteq> []" and
    lk: "linked ?bs"
    by (auto simp: ledgerInv_def split: option.splits)
  have "storedChain D bucket (topHash bc) ?bs"
    using linked_storedChain[OF lk stored codec] head by simp
  then have "IterateBlockchain D f bc = Some (Returned ?bs)"
    unfolding IterateBlockchain_def
    using IterateBlockchain_loop_chain[of D bucket "Iterator bc" ?bs f "[]"] bucket nv
    by (simp add: Iterator_def)
  then show ?thesis
    using genesis head by (simp add: length_expectedChain last_expectedChain)
qed

theorem full_walk_returns_all_blocks_witness:
  "IterateBlockchain exDeserialize noFaults exLedgerLong =
     Some (Returned [exNewBlock ''t2/g'' [exT3], exNewBlock ''g'' [exT2], exGenesis])"
proof -
  have run: "AddBlocks exNewBlock exSerialize [[exT2], [exT3]] exLedger = Returned exLedgerLong"
    by (simp add: ex_add ex_add_long)
  have new: "(Map.empty :: boltDB) BLOCKBUCKET = None" by simp
  have ec: "expectedChain exNewBlock exGenesis [] [[exT2], [exT3]] =
      [exNewBlock ''t2/g'' [exT3], exNewBlock ''g'' [exT2], exGenesis]"
    by (simp add: exNewBlock_def exGenesis_def exT2_def)
  show ?thesis
    using full_walk_returns_all_blocks[OF ex_create new run, of exDeserialize noFaults]
    by (simp add: ec) (simp add: ex_defs)
qed

text \<open>
  C8. A coinbase transaction leaves the spent-output map as it finds it, whatever its
  inputs are: the map at the end of a walk is the one the walk without that transaction
  ends with. Its outputs are scanned like any other's: it is added once for every
  output the address can unlock at a position not yet recorded as spent.
\<close>

theorem coinbase_records_nothing:
  assumes "cb tx"
  shows "snd (scanTransactions cb can cu a (pre @ tx # post) st) =
           snd (scanTransactions cb can cu a (pre @ post) st) \<and>
         fst (scanTransactions cb can cu a (pre @ [tx]) st) =
           fst (scanTransactions cb can cu a pre st)
             @ replicate (unspentCount can a (spentList (snd (scanTransactions cb can cu a pre st)) (ID tx))
                            (Out tx)) tx"
  using assms
  by (simp add: snd_scanTransactions scanTransactions_append[of cb can cu a pre "[tx]"]
        scanTransactions_single del: scanTransactions.simps)

theorem coinbase_records_nothing_witness:
  "exIsCoinbase exT4 \<and> exCanUnlockOutputWith \<lparr>TXid = [], Voutindex = - 1, \<dots> = ''A''\<rparr> ''A'' \<and>
   snd (scanTransactions exIsCoinbase exCanBeUnlockedWith exCanUnlockOutputWith ''A'' [exT4]
          ([], Map.empty)) = Map.empty \<and>
   fst (scanTransactions exIsCoinbase exCanBeUnlockedWith exCanUnlockOutputWith ''A'' [exT4]
          ([], Map.empty)) = [exT4]"
proof -
  have cb: "exIsCoinbase exT4" by (simp add: exIsCoinbase_def exT4_def)
  have n: "unspentCount exCanBeUnlockedWith ''A'' (spentList Map.empty (ID exT4)) (Out exT4) = 1"
    by (simp add: unspentCount_def spentList_def enumerate_simps exT4_def exCanBeUnlockedWith_def)
  show ?thesis
    using coinbase_records_nothing[where cb = exIsCoinbase and tx = exT4 and can = exCanBeUnlockedWith
        and cu = exCanUnlockOutputWith and a = "''A''" and pre = "[]" and post = "[]"
        and st = "([], Map.empty)"] cb n
    by (simp add: exCanUnlockOutputWith_def exCanBeUnlockedWith_def exT4_def Let_def isSpent_def)
qed

text \<open>
  C9. \<open>AddBlock\<close> hands the factory the hash stored under \<open>latest\<close>, whatever \<open>topHash\<close> is:
  on two ledgers whose stores agree on \<open>latest\<close>, \<open>AddBlock\<close> behaves as if the factory were
  applied to that one stored hash, and its read transaction gives the same result on
  both.
\<close>

theorem AddBlock_parent_from_store:
  assumes "db bc1 BLOCKBUCKET = Some b1" and "db bc2 BLOCKBUCKET = Some b2"
    and "bucketGet b1 ''latest'' = bucketGet b2 ''latest''"
  shows "AddBlock NewBlock Serialize f txs bc1 =
           AddBlock (\<lambda>_. NewBlock (bucketGet b1 ''latest'')) Serialize f txs bc1 \<and>
         AddBlock NewBlock Serialize f txs bc2 =
           AddBlock (\<lambda>_. NewBlock (bucketGet b1 ''latest'')) Serialize f txs bc2 \<and>
         AddBlock_tophash f bc1 = AddBlock_tophash f bc2"
  using assms by (simp add: AddBlock_def AddBlock_tophash_def split: outcome.splits)

theorem AddBlock_parent_from_store_witness:
  "topHash (exLedger\<lparr>topHash := ''stale''\<rparr>) = ''stale'' \<and> topHash exLedger = ''g'' \<and>
   AddBlock exNewBlock exSerialize noFaults [exT2] (exLedger\<lparr>topHash := ''stale''\<rparr>) =
     AddBlock (\<lambda>_. exNewBlock ''g'') exSerialize noFaults [exT2] (exLedger\<lparr>topHash := ''stale''\<rparr>) \<and>
   snd (AddBlock exNewBlock exSerialize noFaults [exT2] (exLedger\<lparr>topHash := ''stale''\<rparr>)) =
     exLedgerSpent"
proof -
  have b1: "db exLedger BLOCKBUCKET = Some [''g'' \<mapsto> ''g'', ''latest'' \<mapsto> ''g'']"
    by (simp add: ex_defs)
  have b2: "db (exLedger\<lparr>topHash := ''stale''\<rparr>) BLOCKBUCKET = Some [''g'' \<mapsto> ''g'', ''latest'' \<mapsto> ''g'']"
    by (simp add: ex_defs)
  have l: "bucketGet [''g'' \<mapsto> ''g'', ''latest'' \<mapsto> ''g''] ''latest'' = ''g''"
    by (simp add: bucketGet_def)
  have s: "snd (AddBlock (\<lambda>_. exNewBlock ''g'') exSerialize noFaults [exT2]
                  (exLedger\<lparr>topHash := ''stale''\<rparr>)) = exLedgerSpent"
    by (simp add: AddBlock_def AddBlock_tophash_def AddBlock_update_def Let_def ex_defs)
  show ?thesis
    using AddBlock_parent_from_store[OF b1 b2 refl, of exNewBlock exSerialize noFaults "[exT2]"] s
    by (simp add: l) (simp add: exLedger_def)
qed

text \<open>
  C10. \<open>AddBlock\<close> never returns \<open>false\<close>; what it returns does not depend on whether the
  write transaction commits; and a write transaction that cannot even begin makes it
  return \<open>true\<close> with nothing changed, since the result of \<open>Update\<close> is dropped.
\<close>

theorem AddBlock_never_false:
  "fst (AddBlock NewBlock Serialize f txs bc) \<noteq> Returned False \<and>
   fst (AddBlock NewBlock Serialize (f\<lparr>commitErr := True\<rparr>) txs bc) =
     fst (AddBlock NewBlock Serialize (f\<lparr>commitErr := False\<rparr>) txs bc) \<and>
   AddBlock_update Serialize (f\<lparr>updateErr := True\<rparr>) newBlock bc = (Returned True, bc)"
  by (simp add: AddBlock_def AddBlock_tophash_def AddBlock_update_def Let_def
           split: outcome.splits option.splits)

theorem AddBlock_never_false_witness:
  "fst (AddBlock exNewBlock exSerialize (noFaults\<lparr>commitErr := True\<rparr>) [exT2] exLedger) = Returned True \<and>
   snd (AddBlock exNewBlock exSerialize (noFaults\<lparr>commitErr := True\<rparr>) [exT2] exLedger) \<noteq> exLedgerSpent"
proof -
  have e: "noFaults\<lparr>commitErr := False\<rparr> = noFaults" by (simp add: noFaults_def)
  have s: "snd (AddBlock exNewBlock exSerialize (noFaults\<lparr>commitErr := True\<rparr>) [exT2] exLedger) =
             exLedger\<lparr>topHash := ''t2/g''\<rparr>"
    by (simp add: AddBlock_def AddBlock_tophash_def AddBlock_update_def Let_def ex_defs)
  have n: "exLedger\<lparr>topHash := ''t2/g''\<rparr> \<noteq> exLedgerSpent"
  proof
    assume "exLedger\<lparr>topHash := ''t2/g''\<rparr> = exLedgerSpent"
    then have "db (exLedger\<lparr>topHash := ''t2/g''\<rparr>) BLOCKBUCKET = db exLedgerSpent BLOCKBUCKET" by simp
    then have "[''g'' \<mapsto> ''g'', ''latest'' \<mapsto> ''g''] ''t2/g'' =
        [''g'' \<mapsto> ''g'', ''latest'' \<mapsto> ''g'', ''t2/g'' \<mapsto> ''t2/g'', ''latest'' \<mapsto> ''t2/g''] ''t2/g''"
      by (simp add: ex_defs)
    then show False by simp
  qed
  show ?thesis
    using AddBlock_never_false[of exNewBlock exSerialize noFaults "[exT2]" exLedger] ex_add s n
    by (simp add: e)
qed

end
